theory Spec2Isabelle
  imports Main "HOL-Library.Multiset"
begin

section \<open>Values, exceptions and console output\<close>

text \<open>
  The service table is whatever \<^verbatim>\<open>json.load\<close> produced from \<^verbatim>\<open>ports.json\<close>: a JSON value.
  An object is an association list read with \<open>map_of\<close> (a Python dict has one value per
  key). The value of a number is never inspected by the scanner, so numbers carry an
  integer only.
\<close>

datatype json =
    JNull
  | JBool bool
  | JNum int
  | JStr string
  | JArr "json list"
  | JObj "(string \<times> json) list"

text \<open>
  The exceptions that occur in \<^verbatim>\<open>scanner.py\<close>. All of them are subclasses of Python's
  \<^verbatim>\<open>Exception\<close>; \<^verbatim>\<open>socket.timeout\<close> and \<^verbatim>\<open>socket.error\<close> are \<open>OSError\<close>.
  \<^verbatim>\<open>KeyboardInterrupt\<close> is not an \<^verbatim>\<open>Exception\<close> and is raised in the main thread only: it is
  modelled by the interruption point of a schedule, below.
\<close>

datatype exn =
    OSError
  | OverflowError
  | TypeError
  | AttributeError
  | ValueError
  | KeyError
  | IndexError
  | ZeroDivisionError

section \<open>\<^verbatim>\<open>str(port)\<close>\<close>

definition digit_char :: "nat \<Rightarrow> char" where
  "digit_char d = ''0123456789'' ! d"

fun str_nat :: "nat \<Rightarrow> string" where
  "str_nat n = (if n < 10 then [digit_char n]
                else str_nat (n div 10) @ [digit_char (n mod 10)])"

declare str_nat.simps [simp del]

definition str_int :: "int \<Rightarrow> string" where
  "str_int i = (if i < 0 then CHR ''-'' # str_nat (nat (- i)) else str_nat (nat i))"

section \<open>\<^verbatim>\<open>PortScanner.get_service\<close>\<close>

text \<open>
  \<^verbatim>\<open>port_str in self.ports_data\<close>: key membership for a dict, element membership for a
  list, substring test for a string; any other value is not iterable (\<open>TypeError\<close>).
\<close>

fun is_prefix :: "string \<Rightarrow> string \<Rightarrow> bool" where
  "is_prefix [] ys = True"
| "is_prefix (x # xs) [] = False"
| "is_prefix (x # xs) (y # ys) = (x = y \<and> is_prefix xs ys)"

fun is_substring :: "string \<Rightarrow> string \<Rightarrow> bool" where
  "is_substring xs [] = (xs = [])"
| "is_substring xs (y # ys) = (is_prefix xs (y # ys) \<or> is_substring xs ys)"

fun py_in :: "string \<Rightarrow> json \<Rightarrow> exn + bool" where
  "py_in k (JObj kvs) = Inr (map_of kvs k \<noteq> None)"
| "py_in k (JArr xs) = Inr (JStr k \<in> set xs)"
| "py_in k (JStr s) = Inr (is_substring k s)"
| "py_in k _ = Inl TypeError"

text \<open>
  \<^verbatim>\<open>self.ports_data[port_str]\<close> with a string key: a dict gives the value (\<open>KeyError\<close> when
  absent); lists and strings accept integer indices only (\<open>TypeError\<close>).
\<close>

fun py_getitem :: "json \<Rightarrow> string \<Rightarrow> exn + json" where
  "py_getitem (JObj kvs) k = (case map_of kvs k of None \<Rightarrow> Inl KeyError | Some v \<Rightarrow> Inr v)"
| "py_getitem _ k = Inl TypeError"

text \<open>\<^verbatim>\<open>port_info[0]\<close> is only evaluated on a list.\<close>

fun first_item :: "json list \<Rightarrow> exn + json" where
  "first_item [] = Inl IndexError"
| "first_item (x # xs) = Inr x"

text \<open>\<^verbatim>\<open>info.get("description", "Unknown")\<close>: only a dict has the method \<^verbatim>\<open>get\<close>.\<close>

fun get_description :: "json \<Rightarrow> exn + json" where
  "get_description (JObj r) =
     (case map_of r ''description'' of None \<Rightarrow> Inr (JStr ''Unknown'') | Some d \<Rightarrow> Inr d)"
| "get_description _ = Inl AttributeError"

text \<open>The body of the \<^verbatim>\<open>try\<close> block of \<^verbatim>\<open>get_service\<close>; \<open>None\<close> is falling out of the \<^verbatim>\<open>if\<close>.\<close>

definition get_service_body :: "json \<Rightarrow> string \<Rightarrow> exn + json option" where
  "get_service_body ports_data port_str =
     (case py_in port_str ports_data of
        Inl e \<Rightarrow> Inl e
      | Inr False \<Rightarrow> Inr None
      | Inr True \<Rightarrow>
          (case py_getitem ports_data port_str of
             Inl e \<Rightarrow> Inl e
           | Inr port_info \<Rightarrow>
               (case (case port_info of JArr xs \<Rightarrow> first_item xs | _ \<Rightarrow> Inr port_info) of
                  Inl e \<Rightarrow> Inl e
                | Inr info \<Rightarrow>
                    (case get_description info of Inl e \<Rightarrow> Inl e | Inr d \<Rightarrow> Inr (Some d)))))"

text \<open>
  \<^verbatim>\<open>except (KeyError, IndexError): pass\<close> and the final \<^verbatim>\<open>return "Unknown"\<close>. Every other
  exception leaves \<^verbatim>\<open>get_service\<close>.
\<close>

definition get_service :: "json \<Rightarrow> int \<Rightarrow> exn + json" where
  "get_service ports_data p =
     (case get_service_body ports_data (str_int p) of
        Inl e \<Rightarrow> (if e = KeyError \<or> e = IndexError then Inr (JStr ''Unknown'') else Inl e)
      | Inr (Some d) \<Rightarrow> Inr d
      | Inr None \<Rightarrow> Inr (JStr ''Unknown''))"

section \<open>\<^verbatim>\<open>PortScanner.__init__\<close>\<close>

text \<open>
  One constructor per \<^verbatim>\<open>print\<close> call of \<^verbatim>\<open>scanner.py\<close>, carrying the values the call
  formats. Wall-clock times, the percentage and the rate of a progress line are floating
  point values read from the clock and are not part of the line's model.
\<close>

datatype out =
    Loaded nat                  \<comment> \<open>\<^verbatim>\<open>Loaded {n} port entries\<close>\<close>
  | LoadWarning exn             \<comment> \<open>\<^verbatim>\<open>Warning: Could not load ports data: {e}\<close>\<close>
  | FoundOpen int json          \<comment> \<open>\<^verbatim>\<open>Found open port {port}: {service}\<close>\<close>
  | Progress nat int            \<comment> \<open>\<^verbatim>\<open>Progress: ..% ({ports_scanned}/{total_ports} ports) - .. ports/sec\<close>\<close>
  | ErrorScanning int exn       \<comment> \<open>\<^verbatim>\<open>Error scanning port {port}: {e}\<close>\<close>
  | ScanInterrupted             \<comment> \<open>\<^verbatim>\<open>Scan interrupted by user. Processing results...\<close>\<close>
  | StartingScan string         \<comment> \<open>\<^verbatim>\<open>Starting scan of {host} at {start_time}\<close>\<close>
  | NoOpenPorts                 \<comment> \<open>\<^verbatim>\<open>No open ports found\<close>\<close>
  | ResultsWritten string       \<comment> \<open>\<^verbatim>\<open>Results written to {output}\<close>\<close>
  | OpenPortsHeader             \<comment> \<open>\<^verbatim>\<open>Open ports:\<close>\<close>
  | PortLine int json           \<comment> \<open>\<^verbatim>\<open>Port {port}: {service}\<close>\<close>

datatype port_status = OPEN | CLOSED

text \<open>The dict returned by \<^verbatim>\<open>check_port\<close>, with its three keys.\<close>

record probe_result =
  port :: int
  status :: port_status
  service :: json

text \<open>A report file written by \<^verbatim>\<open>main\<close>: the host and the rows, without the timestamps.\<close>

datatype file_body =
    HtmlReport string "probe_result list"
  | TextReport string "probe_result list"

text \<open>
  The part of the outside world the scanner changes: the sockets that are open (created
  and not yet closed), the next socket handle, the console and the files written.
\<close>

record world =
  live :: "nat set"
  fresh :: nat
  stdout :: "out list"
  files :: "(string \<times> file_body) list"

definition print :: "out \<Rightarrow> world \<Rightarrow> world" where
  "print ev w = w\<lparr>stdout := stdout w @ [ev]\<rparr>"

fun py_len :: "json \<Rightarrow> exn + nat" where
  "py_len (JObj kvs) = Inr (length (remdups (map fst kvs)))"
| "py_len (JArr xs) = Inr (length xs)"
| "py_len (JStr s) = Inr (length s)"
| "py_len _ = Inl TypeError"

text \<open>
  \<open>loaded\<close> is the outcome of \<^verbatim>\<open>open(ports_file)\<close> and \<^verbatim>\<open>json.load(f)\<close>: the parsed document
  or the exception raised. \<^verbatim>\<open>data["ports"]\<close> and \<^verbatim>\<open>len(self.ports_data)\<close> are inside the same
  \<^verbatim>\<open>try\<close>, so a table that has no length is replaced by the empty dict as well.
\<close>

definition PortScanner_init :: "exn + json \<Rightarrow> world \<Rightarrow> json \<times> world" where
  "PortScanner_init loaded w =
     (case loaded of
        Inl e \<Rightarrow> (JObj [], print (LoadWarning e) w)
      | Inr data \<Rightarrow>
          (case py_getitem data ''ports'' of
             Inl e \<Rightarrow> (JObj [], print (LoadWarning e) w)
           | Inr ports_data \<Rightarrow>
               (case py_len ports_data of
                  Inl e \<Rightarrow> (JObj [], print (LoadWarning e) w)
                | Inr n \<Rightarrow> (ports_data, print (Loaded n) w))))"

section \<open>\<^verbatim>\<open>PortScanner.check_port\<close>\<close>

text \<open>
  What the network and the clock answer. \<open>socket_raises p\<close>: creating the socket for the
  probe of port \<open>p\<close> fails (\<open>OSError\<close>, for instance no file descriptor left).
  \<open>connect_ex host p\<close>: the error number \<^verbatim>\<open>sock.connect_ex\<close> returns (0 when the connection
  is established, the \<^verbatim>\<open>errno\<close> of a refused or timed-out attempt otherwise) or the
  exception it raises (\<open>OSError\<close> for a host that does not resolve, \<open>OverflowError\<close> for a
  port outside 0..65535). \<open>elapsed n\<close>: the clock difference \<^verbatim>\<open>time.time() - start_time\<close>, in
  clock ticks, read for the progress line of the \<open>n\<close>-th scanned port. \<open>can_write path\<close>:
  \<^verbatim>\<open>open(path, 'w')\<close> succeeds.
\<close>

datatype connect_outcome = Returns int | Raises exn

record env =
  socket_raises :: "int \<Rightarrow> bool"
  connect_ex :: "string \<Rightarrow> int \<Rightarrow> connect_outcome"
  elapsed :: "nat \<Rightarrow> int"
  can_write :: "string \<Rightarrow> bool"

text \<open>
  \<^verbatim>\<open>socket.socket(...)\<close> followed by \<^verbatim>\<open>sock.settimeout(0.5)\<close>; setting a constant, valid
  timeout on a socket just created does not fail.
\<close>

definition socket_create :: "world \<Rightarrow> nat \<times> world" where
  "socket_create w = (fresh w, w\<lparr>live := insert (fresh w) (live w), fresh := Suc (fresh w)\<rparr>)"

text \<open>\<^verbatim>\<open>sock.close()\<close>; closing a closed socket does nothing.\<close>

definition sock_close :: "nat \<Rightarrow> world \<Rightarrow> world" where
  "sock_close sock w = w\<lparr>live := live w - {sock}\<rparr>"

text \<open>
  The body of the \<^verbatim>\<open>try\<close> block: \<open>Inr (Some r)\<close> is the \<^verbatim>\<open>return\<close> inside it, \<open>Inr None\<close>
  is reaching its end, \<open>Inl e\<close> an exception raised in it.
\<close>

definition check_port_try ::
  "env \<Rightarrow> json \<Rightarrow> string \<Rightarrow> int \<Rightarrow> nat \<Rightarrow> world \<Rightarrow> (exn + probe_result option) \<times> world" where
  "check_port_try ev ports_data host p sock w =
     (case connect_ex ev host p of
        Raises e \<Rightarrow> (Inl e, w)
      | Returns result \<Rightarrow>
          (let w1 = sock_close sock w in
           if result = 0 then
             (case get_service ports_data p of
                Inl e \<Rightarrow> (Inl e, w1)
              | Inr srv \<Rightarrow>
                  (Inr (Some \<lparr>port = p, status = OPEN, service = srv\<rparr>),
                   print (FoundOpen p srv) w1))
           else (Inr None, w1)))"

text \<open>The \<^verbatim>\<open>return\<close> after the \<^verbatim>\<open>try\<close> statement.\<close>

definition closed_return :: "json \<Rightarrow> int \<Rightarrow> world \<Rightarrow> (exn + probe_result) \<times> world" where
  "closed_return ports_data p w =
     (case get_service ports_data p of
        Inl e \<Rightarrow> (Inl e, w)
      | Inr srv \<Rightarrow> (Inr \<lparr>port = p, status = CLOSED, service = srv\<rparr>, w))"

text \<open>
  \<^verbatim>\<open>except (socket.timeout, socket.error): pass\<close> swallows an \<open>OSError\<close>; the \<^verbatim>\<open>finally\<close>
  clause closes the socket on every way out of the \<^verbatim>\<open>try\<close> statement. The socket is
  created before the \<^verbatim>\<open>try\<close>: when its creation fails there is no socket and the error
  leaves \<^verbatim>\<open>check_port\<close>.
\<close>

definition check_port ::
  "env \<Rightarrow> json \<Rightarrow> string \<Rightarrow> int \<Rightarrow> world \<Rightarrow> (exn + probe_result) \<times> world" where
  "check_port ev ports_data host p w =
     (if socket_raises ev p then (Inl OSError, w)
      else
        (let (sock, w1) = socket_create w;
             (r, w2) = check_port_try ev ports_data host p sock w1;
             w3 = sock_close sock w2
         in case r of
              Inr (Some res) \<Rightarrow> (Inr res, w3)
            | Inr None \<Rightarrow> closed_return ports_data p w3
            | Inl e \<Rightarrow> (if e = OSError then closed_return ports_data p w3 else (Inl e, w3))))"

section \<open>\<^verbatim>\<open>PortScanner.scan\<close>\<close>

text \<open>
  The worker pool runs one \<^verbatim>\<open>check_port\<close> task per submitted port and
  \<^verbatim>\<open>concurrent.futures.as_completed\<close> yields every submitted future once, in the order in
  which the tasks finish. That order is not decided by the program: a schedule lists, step
  by step, which of the futures still pending finishes next (an exhausted list lets the
  rest finish in submission order).
\<close>

fun as_completed :: "nat list \<Rightarrow> 'a list \<Rightarrow> 'a list" where
  "as_completed cs [] = []"
| "as_completed [] (f # fs) = f # fs"
| "as_completed (c # cs) (f # fs) =
     (let i = c mod length (f # fs)
      in (f # fs) ! i # as_completed cs (take i (f # fs) @ drop (Suc i) (f # fs)))"

text \<open>
  A \<^verbatim>\<open>KeyboardInterrupt\<close> reaches the main thread at a point the program does not choose
  either: while the futures are being submitted (after \<open>k\<close> of them); in the loop over
  the completed futures, between two futures (after \<open>j\<close> of them have been handled); or
  while the next future is being handled, after its progress report and before its result
  is appended (an interruption earlier or later in the loop body is not told apart from
  one between two futures by anything \<^verbatim>\<open>scan\<close> returns or prints). \<^verbatim>\<open>KeyboardInterrupt\<close> is not
  an \<^verbatim>\<open>Exception\<close>, so only the outer \<^verbatim>\<open>try\<close> statement catches it; before that the \<^verbatim>\<open>with\<close>
  statement shuts the pool down and waits for the tasks already submitted, whose results
  are not collected. The interruptions modelled are those that arrive inside the \<^verbatim>\<open>try\<close>
  statement of \<^verbatim>\<open>scan\<close>.
\<close>

datatype interrupt = DuringSubmit nat | DuringLoop nat | DuringFuture nat

record schedule =
  picks :: "nat list"
  interrupted :: "interrupt option"

record scan_state =
  results :: "probe_result list"
  ports_scanned :: nat

text \<open>
  Lines 85 to 92: count the port and, every 1000 ports, print the progress line. The rate
  \<^verbatim>\<open>ports_scanned / elapsed\<close> and the fraction \<^verbatim>\<open>ports_scanned / total_ports\<close> are float
  divisions, which raise \<open>ZeroDivisionError\<close> on a zero divisor.
\<close>

definition report_progress ::
  "env \<Rightarrow> int \<Rightarrow> scan_state \<times> world \<Rightarrow> exn option \<times> scan_state \<times> world" where
  "report_progress ev total_ports sw =
     (let st = (fst sw)\<lparr>ports_scanned := ports_scanned (fst sw) + 1\<rparr>;
          w = snd sw
      in if ports_scanned st mod 1000 = 0 then
           (if elapsed ev (ports_scanned st) = 0 \<or> total_ports = 0
            then (Some ZeroDivisionError, st, w)
            else (None, st, print (Progress (ports_scanned st) total_ports) w))
         else (None, st, w))"

text \<open>
  The body of the loop over the completed futures, for the future of port \<open>p\<close> whose task
  ended with \<open>oc\<close>: \<^verbatim>\<open>future.result()\<close> re-raises the task's exception, and
  \<^verbatim>\<open>except Exception\<close> reports whatever was raised in the body.
\<close>

definition handle_future ::
  "env \<Rightarrow> int \<Rightarrow> int \<Rightarrow> exn + probe_result \<Rightarrow> scan_state \<times> world \<Rightarrow> scan_state \<times> world" where
  "handle_future ev total_ports p oc sw =
     (case oc of
        Inl e \<Rightarrow> (fst sw, print (ErrorScanning p e) (snd sw))
      | Inr result \<Rightarrow>
          (case report_progress ev total_ports sw of
             (Some e, st, w) \<Rightarrow> (st, print (ErrorScanning p e) w)
           | (None, st, w) \<Rightarrow>
               (if status result = OPEN
                then (st\<lparr>results := results st @ [result]\<rparr>, w)
                else (st, w))))"

text \<open>
  The loop over the futures in completion order. The task of a future has run before the
  main thread handles it; each task works on a socket of its own, so the tasks are run
  here one after the other, in completion order.
\<close>

fun scan_loop ::
  "env \<Rightarrow> json \<Rightarrow> string \<Rightarrow> int \<Rightarrow> int list \<Rightarrow> scan_state \<times> world \<Rightarrow> scan_state \<times> world" where
  "scan_loop ev ports_data host total_ports [] sw = sw"
| "scan_loop ev ports_data host total_ports (p # ps) sw =
     (let (oc, w1) = check_port ev ports_data host p (snd sw)
      in scan_loop ev ports_data host total_ports ps
           (handle_future ev total_ports p oc (fst sw, w1)))"

text \<open>
  The future of port \<open>p\<close> whose handling is cut short by the interruption: its task has
  run and its progress report may have been printed, its result is dropped.
\<close>

definition interrupted_future ::
  "env \<Rightarrow> json \<Rightarrow> string \<Rightarrow> int \<Rightarrow> int \<Rightarrow> scan_state \<times> world \<Rightarrow> world" where
  "interrupted_future ev ports_data host total_ports p sw =
     (let (oc, w1) = check_port ev ports_data host p (snd sw)
      in case oc of
           Inl e \<Rightarrow> w1
         | Inr result \<Rightarrow> snd (snd (report_progress ev total_ports (fst sw, w1))))"

text \<open>Tasks that finish while the pool shuts down: they run, nobody reads their result.\<close>

fun drain :: "env \<Rightarrow> json \<Rightarrow> string \<Rightarrow> int list \<Rightarrow> world \<Rightarrow> world" where
  "drain ev ports_data host [] w = w"
| "drain ev ports_data host (p # ps) w =
     drain ev ports_data host ps (snd (check_port ev ports_data host p w))"

text \<open>
  What a call of \<^verbatim>\<open>scan\<close> did: the list it returned or the exception that left it, the
  ports whose probe it submitted to the pool, and the world afterwards.
\<close>

record scan_run =
  returned :: "exn + probe_result list"
  submitted :: "int list"
  world_after :: world

text \<open>
  \<^verbatim>\<open>ThreadPoolExecutor(max_workers=threads)\<close> raises \<open>ValueError\<close> for \<open>threads \<le> 0\<close>; the
  \<^verbatim>\<open>try\<close> statement of \<^verbatim>\<open>scan\<close> catches \<^verbatim>\<open>KeyboardInterrupt\<close> only. \<^verbatim>\<open>range(start_port,
  end_port + 1)\<close> is \<open>[start_port..end_port]\<close>, and \<^verbatim>\<open>sorted\<close> is a stable sort by the key.
\<close>

definition scan ::
  "env \<Rightarrow> json \<Rightarrow> string \<Rightarrow> int \<Rightarrow> int \<Rightarrow> int \<Rightarrow> schedule \<Rightarrow> world \<Rightarrow> scan_run" where
  "scan ev ports_data host start_port end_port threads sched w =
     (let st0 = \<lparr>results = [], ports_scanned = 0\<rparr>;
          total_ports = end_port - start_port + 1
      in if threads \<le> 0 then \<lparr>returned = Inl ValueError, submitted = [], world_after = w\<rparr>
         else
           (case interrupted sched of
              Some (DuringSubmit k) \<Rightarrow>
                (let ports = take k [start_port..end_port];
                     w1 = drain ev ports_data host (as_completed (picks sched) ports) w
                 in \<lparr>returned = Inr (sort_key port (results st0)), submitted = ports,
                     world_after = print ScanInterrupted w1\<rparr>)
            | Some (DuringLoop j) \<Rightarrow>
                (let ports = [start_port..end_port];
                     order = as_completed (picks sched) ports;
                     (st, w1) = scan_loop ev ports_data host total_ports (take j order) (st0, w);
                     w2 = drain ev ports_data host (drop j order) w1
                 in \<lparr>returned = Inr (sort_key port (results st)), submitted = ports,
                     world_after = print ScanInterrupted w2\<rparr>)
            | Some (DuringFuture j) \<Rightarrow>
                (let ports = [start_port..end_port];
                     order = as_completed (picks sched) ports;
                     (st, w1) = scan_loop ev ports_data host total_ports (take j order) (st0, w);
                     w2 = (case drop j order of
                             [] \<Rightarrow> w1
                           | p # ps \<Rightarrow>
                               drain ev ports_data host ps
                                 (interrupted_future ev ports_data host total_ports p (st, w1)))
                 in \<lparr>returned = Inr (sort_key port (results st)), submitted = ports,
                     world_after = print ScanInterrupted w2\<rparr>)
            | None \<Rightarrow>
                (let ports = [start_port..end_port];
                     order = as_completed (picks sched) ports;
                     (st, w1) = scan_loop ev ports_data host total_ports order (st0, w)
                 in \<lparr>returned = Inr (sort_key port (results st)), submitted = ports,
                     world_after = w1\<rparr>)))"

section \<open>\<^verbatim>\<open>generate_html_report\<close> and \<^verbatim>\<open>main\<close>\<close>

definition generate_html_report :: "probe_result list \<Rightarrow> string \<Rightarrow> file_body" where
  "generate_html_report rs host = HtmlReport host rs"

text \<open>\<^verbatim>\<open>s.split('-')\<close>: the pieces between the separators, at least one piece.\<close>

fun split_on :: "char \<Rightarrow> string \<Rightarrow> string list" where
  "split_on c [] = [[]]"
| "split_on c (x # xs) =
     (if x = c then [] # split_on c xs
      else (case split_on c xs of [] \<Rightarrow> [[x]] | g # gs \<Rightarrow> (x # g) # gs))"

text \<open>
  \<^verbatim>\<open>int(s)\<close> on a string of code points below 256: white space around the number is
  dropped, a sign may come first, and the digits may be grouped by single underscores.
  Anything else is a \<open>ValueError\<close>.
\<close>

definition is_space :: "char \<Rightarrow> bool" where
  "is_space c = (of_char c \<in> set [9, 10, 11, 12, 13, 28, 29, 30, 31, 32, 133, 160 :: nat])"

definition is_digit :: "char \<Rightarrow> bool" where
  "is_digit c = (48 \<le> (of_char c :: nat) \<and> (of_char c :: nat) \<le> 57)"

definition digits_value :: "string \<Rightarrow> nat" where
  "digits_value ds = foldl (\<lambda>a c. 10 * a + (of_char c - 48)) 0 ds"

definition py_int :: "string \<Rightarrow> exn + int" where
  "py_int s =
     (let t = rev (dropWhile is_space (rev (dropWhile is_space s)));
          negative = (t \<noteq> [] \<and> hd t = CHR ''-'');
          body = (if t \<noteq> [] \<and> (hd t = CHR ''-'' \<or> hd t = CHR ''+'') then tl t else t);
          groups = split_on CHR ''_'' body
      in if list_all (\<lambda>g. g \<noteq> [] \<and> list_all is_digit g) groups
         then Inr (if negative then - int (digits_value (concat groups))
                   else int (digits_value (concat groups)))
         else Inl ValueError)"

text \<open>
  \<^verbatim>\<open>start_port, end_port = map(int, args.ports.split('-'))\<close>: a piece that is not an integer
  and a number of pieces other than two are both a \<open>ValueError\<close>.
\<close>

definition parse_ports :: "string \<Rightarrow> exn + int \<times> int" where
  "parse_ports s =
     (case map py_int (split_on CHR ''-'' s) of
        [Inr a, Inr b] \<Rightarrow> Inr (a, b)
      | _ \<Rightarrow> Inl ValueError)"

record args =
  args_host :: string
  args_ports :: string
  args_threads :: int
  args_output :: "string option"

definition endswith :: "string \<Rightarrow> string \<Rightarrow> bool" where
  "endswith s suf = (length suf \<le> length s \<and> drop (length s - length suf) s = suf)"

text \<open>
  Lines 176 to 187, the report file: \<^verbatim>\<open>if args.output\<close> is false for no option and for
  the empty string; \<^verbatim>\<open>open(args.output, 'w')\<close> raises \<open>OSError\<close> when the file cannot be
  written, and nothing in \<^verbatim>\<open>main\<close> catches it.
\<close>

definition write_report :: "env \<Rightarrow> args \<Rightarrow> probe_result list \<Rightarrow> world \<Rightarrow> exn option \<times> world" where
  "write_report ev a rs w =
     (case args_output a of
        None \<Rightarrow> (None, w)
      | Some path \<Rightarrow>
          (if path = [] then (None, w)
           else if \<not> can_write ev path then (Some OSError, w)
           else
             (let body = (if endswith path ''.html'' then generate_html_report rs (args_host a)
                          else TextReport (args_host a) rs)
              in (None, print (ResultsWritten path) (w\<lparr>files := (path, body) # files w\<rparr>)))))"

text \<open>Lines 190 to 192.\<close>

definition print_open_ports :: "probe_result list \<Rightarrow> world \<Rightarrow> world" where
  "print_open_ports rs w =
     foldl (\<lambda>w' r. print (PortLine (port r) (service r)) w') (print OpenPortsHeader w) rs"

text \<open>
  \<^verbatim>\<open>main\<close> after \<^verbatim>\<open>parse_args\<close>. The result is the exception that ends the program, if any,
  and the world afterwards. \<^verbatim>\<open>scan\<close> handles an interruption itself, so the
  \<^verbatim>\<open>except KeyboardInterrupt\<close> of \<^verbatim>\<open>main\<close> is not reached by the interruptions modelled here.
\<close>

definition main :: "env \<Rightarrow> exn + json \<Rightarrow> args \<Rightarrow> schedule \<Rightarrow> world \<Rightarrow> exn option \<times> world" where
  "main ev loaded a sched w =
     (case parse_ports (args_ports a) of
        Inl e \<Rightarrow> (Some e, w)
      | Inr (start_port, end_port) \<Rightarrow>
          (let (ports_data, w1) = PortScanner_init loaded w;
               w2 = print (StartingScan (args_host a)) w1;
               run = scan ev ports_data (args_host a) start_port end_port (args_threads a) sched w2
           in case returned run of
                Inl e \<Rightarrow> (Some e, world_after run)
              | Inr rs \<Rightarrow>
                  (if rs = [] then (None, print NoOpenPorts (world_after run))
                   else
                     (case write_report ev a rs (world_after run) of
                        (Some e, w3) \<Rightarrow> (Some e, w3)
                      | (None, w3) \<Rightarrow> (None, print_open_ports rs w3)))))"

section \<open>Notions used to state the properties\<close>

text \<open>
  What the probe task of port \<open>p\<close> ends with. The result of \<^verbatim>\<open>check_port\<close> does not depend on
  the world the task runs in (lemma \<open>check_port_outcome\<close>), so it is read off a run in the
  empty world.
\<close>

definition empty_world :: world where
  "empty_world = \<lparr>live = {}, fresh = 0, stdout = [], files = []\<rparr>"

definition probe_outcome :: "env \<Rightarrow> json \<Rightarrow> string \<Rightarrow> int \<Rightarrow> exn + probe_result" where
  "probe_outcome ev ports_data host p = fst (check_port ev ports_data host p empty_world)"

text \<open>The completed-counts of the progress lines among some console lines, in order.\<close>

fun progress_counts :: "out list \<Rightarrow> nat list" where
  "progress_counts [] = []"
| "progress_counts (Progress n t # evs) = n # progress_counts evs"
| "progress_counts (ev # evs) = progress_counts evs"

text \<open>The console lines a run added to the world \<open>w\<close> it started in.\<close>

definition printed :: "world \<Rightarrow> world \<Rightarrow> out list" where
  "printed w w' = drop (length (stdout w)) (stdout w')"

text \<open>
  The ports whose futures the loop of \<^verbatim>\<open>scan\<close> has handled to the end when the run ends:
  all of them in a run that is not interrupted, none when the interruption comes during
  submission, the first \<open>j\<close> completed ones when it comes in the loop.
\<close>

definition handled :: "int \<Rightarrow> int \<Rightarrow> schedule \<Rightarrow> int list" where
  "handled start_port end_port sched =
     (case interrupted sched of
        None \<Rightarrow> as_completed (picks sched) [start_port..end_port]
      | Some (DuringSubmit k) \<Rightarrow> []
      | Some (DuringLoop j) \<Rightarrow> take j (as_completed (picks sched) [start_port..end_port])
      | Some (DuringFuture j) \<Rightarrow> take j (as_completed (picks sched) [start_port..end_port]))"

text \<open>The integers a console line formats.\<close>

fun formatted_ints :: "out \<Rightarrow> int list" where
  "formatted_ints (Loaded n) = [int n]"
| "formatted_ints (FoundOpen p srv) = [p]"
| "formatted_ints (Progress n t) = [int n, t]"
| "formatted_ints (ErrorScanning p e) = [p]"
| "formatted_ints (PortLine p srv) = [p]"
| "formatted_ints ev = []"

text \<open>
  The end of the console output of \<^verbatim>\<open>main\<close> for the list \<open>rs\<close> that \<^verbatim>\<open>scan\<close> returned
  (lines 171 to 173 and 190 to 192).
\<close>

definition console_summary :: "probe_result list \<Rightarrow> out list" where
  "console_summary rs =
     (if rs = [] then [NoOpenPorts]
      else OpenPortsHeader # map (\<lambda>r. PortLine (port r) (service r)) rs)"

section \<open>Concrete inputs\<close>

text \<open>
  A service table with a well-formed entry, an empty sequence, a record without
  description and a sequence of records; and a network in which ports 80 and 83 accept
  connections, port 81 makes \<^verbatim>\<open>connect_ex\<close> raise a socket error, port 82 makes it raise
  another exception and every other port refuses (\<^verbatim>\<open>ECONNREFUSED\<close> is 111).
\<close>

definition sample_table :: "(string \<times> json) list" where
  "sample_table =
     [(''80'', JObj [(''description'', JStr ''HTTP'')]),
      (''21'', JArr []),
      (''22'', JObj [(''name'', JStr ''ssh'')]),
      (''443'', JArr [JObj [(''description'', JStr ''HTTPS'')], JObj []])]"

definition sample_env :: env where
  "sample_env =
     \<lparr>socket_raises = (\<lambda>p. False),
      connect_ex = (\<lambda>host p. if p = 80 \<or> p = 83 then Returns 0
                              else if p = 81 then Raises OSError
                              else if p = 82 then Raises OverflowError
                              else Returns 111),
      elapsed = (\<lambda>n. 1),
      can_write = (\<lambda>path. True)\<rparr>"

text \<open>
  Two schedules for the ports 79 to 83: the tasks finish in the order 83, 79, 80, 81, 82;
  the second one is interrupted when three futures have been handled.
\<close>

definition sample_sched :: schedule where
  "sample_sched = \<lparr>picks = [4, 0], interrupted = None\<rparr>"

definition interrupted_sched :: schedule where
  "interrupted_sched = \<lparr>picks = [4, 0], interrupted = Some (DuringLoop 3)\<rparr>"

text \<open>
  The parsed \<^verbatim>\<open>ports.json\<close> holding the sample table, and two command lines that scan
  port 80 alone: console only, and with an HTML report.
\<close>

definition sample_document :: json where
  "sample_document = JObj [(''ports'', JObj sample_table)]"

definition console_args :: args where
  "console_args = \<lparr>args_host = ''example.com'', args_ports = ''80-80'', args_threads = 16,
                    args_output = None\<rparr>"

definition report_args :: args where
  "report_args = \<lparr>args_host = ''example.com'', args_ports = ''80-80'', args_threads = 16,
                   args_output = Some ''scan.html''\<rparr>"

section \<open>Properties of \<^verbatim>\<open>get_service\<close>\<close>

lemma str_int_samples:
  "str_int 21 = ''21''" "str_int 22 = ''22''" "str_int 80 = ''80''" "str_int 81 = ''81''"
  "str_int 82 = ''82''" "str_int 83 = ''83''" "str_int 79 = ''79''"
  "str_int 443 = ''443''" "str_int 9999 = ''9999''"
  by (simp_all add: str_int_def str_nat.simps digit_char_def)

lemma get_service_samples:
  "get_service (JObj sample_table) 80 = Inr (JStr ''HTTP'')"
  "get_service (JObj sample_table) 81 = Inr (JStr ''Unknown'')"
  "get_service (JObj sample_table) 82 = Inr (JStr ''Unknown'')"
  "get_service (JObj sample_table) 443 = Inr (JStr ''HTTPS'')"
  by (simp_all add: sample_table_def get_service_def get_service_body_def str_int_samples)

text \<open>
  C4. When the table is a dict that has no entry for the port, or whose entry for the
  port is an empty sequence, or a record (alone or first of a sequence) without the key
  \<^verbatim>\<open>description\<close>, \<^verbatim>\<open>get_service\<close> returns the string \<^verbatim>\<open>Unknown\<close> and raises nothing.
\<close>

theorem get_service_unknown:
  assumes "map_of kvs (str_int p) = None
           \<or> map_of kvs (str_int p) = Some (JArr [])
           \<or> (\<exists>r. (map_of kvs (str_int p) = Some (JObj r)
                    \<or> (\<exists>rest. map_of kvs (str_int p) = Some (JArr (JObj r # rest))))
                  \<and> map_of r ''description'' = None)"
  shows "get_service (JObj kvs) p = Inr (JStr ''Unknown'')"
  using assms
  by (auto simp: get_service_def get_service_body_def)

theorem get_service_unknown_witness:
  "get_service (JObj sample_table) 9999 = Inr (JStr ''Unknown'')
   \<and> get_service (JObj sample_table) 21 = Inr (JStr ''Unknown'')
   \<and> get_service (JObj sample_table) 22 = Inr (JStr ''Unknown'')"
  using get_service_unknown [of sample_table 9999]
    get_service_unknown [of sample_table 21]
    get_service_unknown [of sample_table 22]
  by (simp add: sample_table_def str_int_samples)

section \<open>Properties of \<^verbatim>\<open>check_port\<close>\<close>

lemmas check_port_defs =
  check_port_def check_port_try_def closed_return_def socket_create_def sock_close_def
  print_def Let_def

lemma check_port_outcome:
  "fst (check_port ev pd host p w) = probe_outcome ev pd host p"
  by (simp add: probe_outcome_def empty_world_def check_port_defs
      split: connect_outcome.splits sum.splits option.splits prod.splits)

lemma check_port_port:
  "fst (check_port ev pd host p w) = Inr r \<Longrightarrow> port r = p"
  by (auto simp: check_port_defs
      split: connect_outcome.splits sum.splits option.splits prod.splits if_splits)

lemma check_port_stdout:
  "\<exists>new. stdout (snd (check_port ev pd host p w)) = stdout w @ new \<and> progress_counts new = []"
  by (auto simp: check_port_defs
      split: connect_outcome.splits sum.splits option.splits prod.splits if_splits)

text \<open>
  C2. When the socket could be created and the catalog lookup for the port gives a
  label: an established connection (\<^verbatim>\<open>connect_ex\<close> returns 0) is classified \<open>OPEN\<close>; a
  refused or timed-out attempt (a non-zero error number) and a socket-level error raised
  by the attempt are classified \<open>CLOSED\<close>; in both cases the result carries the port, the
  status and that label; and \<open>OPEN\<close> is returned for an established connection only.
\<close>

theorem check_port_classifies:
  assumes "\<not> socket_raises ev p" and "get_service pd p = Inr srv"
  shows "(connect_ex ev host p = Returns 0 \<longrightarrow>
            fst (check_port ev pd host p w) = Inr \<lparr>port = p, status = OPEN, service = srv\<rparr>)
       \<and> ((\<exists>n. n \<noteq> 0 \<and> connect_ex ev host p = Returns n) \<or> connect_ex ev host p = Raises OSError \<longrightarrow>
            fst (check_port ev pd host p w) = Inr \<lparr>port = p, status = CLOSED, service = srv\<rparr>)
       \<and> (\<forall>r. fst (check_port ev pd host p w) = Inr r \<and> status r = OPEN \<longrightarrow>
            connect_ex ev host p = Returns 0)"
  using assms
  by (auto simp: check_port_defs
      split: connect_outcome.splits sum.splits option.splits prod.splits if_splits)

theorem check_port_classifies_witness:
  "fst (check_port sample_env (JObj sample_table) ''example.com'' 80 empty_world)
     = Inr \<lparr>port = 80, status = OPEN, service = JStr ''HTTP''\<rparr>
   \<and> fst (check_port sample_env (JObj sample_table) ''example.com'' 443 empty_world)
     = Inr \<lparr>port = 443, status = CLOSED, service = JStr ''HTTPS''\<rparr>
   \<and> fst (check_port sample_env (JObj sample_table) ''example.com'' 81 empty_world)
     = Inr \<lparr>port = 81, status = CLOSED, service = JStr ''Unknown''\<rparr>"
proof -
  have sock: "\<not> socket_raises sample_env q" for q
    by (simp add: sample_env_def)
  have established: "connect_ex sample_env ''example.com'' 80 = Returns 0"
    by (simp add: sample_env_def)
  have refused: "\<exists>n. n \<noteq> 0 \<and> connect_ex sample_env ''example.com'' 443 = Returns n"
    by (simp add: sample_env_def)
  have failed: "connect_ex sample_env ''example.com'' 81 = Raises OSError"
    by (simp add: sample_env_def)
  have "fst (check_port sample_env (JObj sample_table) ''example.com'' 80 empty_world)
          = Inr \<lparr>port = 80, status = OPEN, service = JStr ''HTTP''\<rparr>"
    using check_port_classifies [OF sock get_service_samples(1), of "''example.com''" empty_world]
      established by blast
  moreover
  have "fst (check_port sample_env (JObj sample_table) ''example.com'' 443 empty_world)
          = Inr \<lparr>port = 443, status = CLOSED, service = JStr ''HTTPS''\<rparr>"
    using check_port_classifies [OF sock get_service_samples(4), of "''example.com''" empty_world]
      refused by blast
  moreover
  have "fst (check_port sample_env (JObj sample_table) ''example.com'' 81 empty_world)
          = Inr \<lparr>port = 81, status = CLOSED, service = JStr ''Unknown''\<rparr>"
    using check_port_classifies [OF sock get_service_samples(2), of "''example.com''" empty_world]
      failed by blast
  ultimately show ?thesis by blast
qed

text \<open>
  C7. In a world whose next socket handle is not in use, the sockets open after a call
  of \<^verbatim>\<open>check_port\<close> are those open before it, whatever the connection attempt and the
  catalog lookup do (return, refuse, raise): the socket the call created (the handle
  counter has advanced, unless the creation itself failed) has been closed when the call
  returns or raises.
\<close>

theorem check_port_releases_socket:
  assumes "fresh w \<notin> live w"
  shows "live (snd (check_port ev pd host p w)) = live w
       \<and> fresh (snd (check_port ev pd host p w))
           = (if socket_raises ev p then fresh w else Suc (fresh w))"
  using assms
  by (auto simp: check_port_defs
      split: connect_outcome.splits sum.splits option.splits prod.splits if_splits)

theorem check_port_releases_socket_witness:
  "fresh empty_world \<notin> live empty_world
   \<and> live (snd (check_port sample_env (JObj sample_table) ''example.com'' 82 empty_world)) = {}
   \<and> fresh (snd (check_port sample_env (JObj sample_table) ''example.com'' 82 empty_world)) = 1"
proof -
  have h: "fresh empty_world \<notin> live empty_world"
    by (simp add: empty_world_def)
  show ?thesis
    using h check_port_releases_socket [OF h, of sample_env "JObj sample_table" "''example.com''" 82]
    by (simp add: empty_world_def sample_env_def)
qed

section \<open>Properties of the schedule and of the loop body\<close>

text \<open>
  \<^verbatim>\<open>as_completed\<close> yields every future exactly once, and every order of the futures is the
  completion order of some schedule.
\<close>

lemma as_completed_mset: "mset (as_completed cs fs) = mset fs"
proof (induction cs fs rule: as_completed.induct)
  case (3 c cs f fs)
  let ?xs = "f # fs"
  let ?i = "c mod length ?xs"
  have i: "?i < length ?xs" by simp
  have "mset ?xs = mset (take ?i ?xs @ ?xs ! ?i # drop (Suc ?i) ?xs)"
    using id_take_nth_drop [OF i] by simp
  also have "\<dots> = add_mset (?xs ! ?i) (mset (take ?i ?xs @ drop (Suc ?i) ?xs))"
    by simp
  finally show ?case
    using "3.IH" [of ?i] by (simp add: Let_def del: mset_append)
qed simp_all

lemma as_completed_set: "set (as_completed cs fs) = set fs"
  using as_completed_mset [of cs fs] by (rule mset_eq_setD)

lemma as_completed_distinct: "distinct (as_completed cs fs) = distinct fs"
  using as_completed_mset [of cs fs] by (rule mset_eq_imp_distinct_iff)

lemma as_completed_length: "length (as_completed cs fs) = length fs"
  using as_completed_mset [of cs fs] by (rule mset_eq_length)

lemma as_completed_any_order:
  "mset ys = mset xs \<Longrightarrow> \<exists>cs. as_completed cs xs = ys"
proof (induction ys arbitrary: xs)
  case Nil
  then show ?case by simp
next
  case (Cons y ys)
  then have "y \<in> set xs"
    by (metis list.set_intros(1) mset_eq_setD)
  then obtain i where i: "i < length xs" "xs ! i = y"
    by (auto simp: in_set_conv_nth)
  let ?rest = "take i xs @ drop (Suc i) xs"
  have "mset xs = add_mset y (mset ?rest)"
    using id_take_nth_drop [OF i(1)] i(2)
    by (metis mset.simps(2) mset_append union_mset_add_mset_right)
  with Cons.prems have "mset ys = mset ?rest" by simp
  then obtain cs where cs: "as_completed cs ?rest = ys"
    using Cons.IH by blast
  obtain f fs where xs: "xs = f # fs"
    using i(1) by (cases xs) auto
  have "as_completed (i # cs) xs = y # ys"
    using i cs unfolding xs by (simp add: Let_def)
  then show ?case by blast
qed

lemma progress_counts_append [simp]:
  "progress_counts (xs @ ys) = progress_counts xs @ progress_counts ys"
  by (induction xs rule: progress_counts.induct) simp_all

lemma handle_future_results:
  "\<exists>qs. results (fst (handle_future ev tp p oc sw)) = results (fst sw) @ qs
        \<and> (qs = [] \<or> (\<exists>r. oc = Inr r \<and> status r = OPEN \<and> qs = [r]))"
  by (auto simp: handle_future_def report_progress_def Let_def
      split: sum.splits option.splits prod.splits if_splits)

lemma handle_future_complete:
  assumes "\<forall>n. elapsed ev n \<noteq> 0" and "tp \<noteq> 0" and "status r = OPEN"
  shows "results (fst (handle_future ev tp p (Inr r) sw)) = results (fst sw) @ [r]"
  using assms
  by (auto simp: handle_future_def report_progress_def Let_def
      split: sum.splits option.splits prod.splits if_splits)

lemma handle_future_stdout:
  "\<exists>new. stdout (snd (handle_future ev tp p oc sw)) = stdout (snd sw) @ new
         \<and> (progress_counts new = []
            \<or> progress_counts new = [Suc (ports_scanned (fst sw))])
         \<and> ports_scanned (fst sw) \<le> ports_scanned (fst (handle_future ev tp p oc sw))
         \<and> (progress_counts new \<noteq> [] \<longrightarrow>
              ports_scanned (fst (handle_future ev tp p oc sw)) = Suc (ports_scanned (fst sw)))
         \<and> ports_scanned (fst (handle_future ev tp p oc sw)) \<le> Suc (ports_scanned (fst sw))"
  by (auto simp: handle_future_def report_progress_def Let_def print_def
      split: sum.splits option.splits prod.splits if_splits)

lemma handle_future_counted:
  assumes "\<forall>n. elapsed ev n \<noteq> 0" and "tp \<noteq> 0"
  shows "ports_scanned (fst (handle_future ev tp p (Inr r) sw)) = Suc (ports_scanned (fst sw))
       \<and> (\<exists>new. stdout (snd (handle_future ev tp p (Inr r) sw)) = stdout (snd sw) @ new
             \<and> progress_counts new = (if Suc (ports_scanned (fst sw)) mod 1000 = 0
                                       then [Suc (ports_scanned (fst sw))] else []))"
  using assms
  by (auto simp: handle_future_def report_progress_def Let_def print_def)

lemma interrupted_future_stdout:
  "\<exists>new. stdout (interrupted_future ev pd host tp p sw) = stdout (snd sw) @ new
         \<and> (progress_counts new = [] \<or> progress_counts new = [Suc (ports_scanned (fst sw))])"
proof -
  obtain n0 where n0: "stdout (snd (check_port ev pd host p (snd sw))) = stdout (snd sw) @ n0"
    "progress_counts n0 = []"
    using check_port_stdout [of ev pd host p "snd sw"] by blast
  let ?w1 = "snd (check_port ev pd host p (snd sw))"
  have "interrupted_future ev pd host tp p sw = ?w1
        \<or> interrupted_future ev pd host tp p sw
            = print (Progress (Suc (ports_scanned (fst sw))) tp) ?w1"
    by (simp add: interrupted_future_def report_progress_def Let_def case_prod_beta
        split: sum.splits)
  then show ?thesis
  proof
    assume "interrupted_future ev pd host tp p sw = ?w1"
    then show ?thesis using n0 by auto
  next
    assume "interrupted_future ev pd host tp p sw
            = print (Progress (Suc (ports_scanned (fst sw))) tp) ?w1"
    then have "stdout (interrupted_future ev pd host tp p sw)
                 = stdout (snd sw) @ (n0 @ [Progress (Suc (ports_scanned (fst sw))) tp])"
      using n0(1) by (simp add: print_def)
    moreover have "progress_counts (n0 @ [Progress (Suc (ports_scanned (fst sw))) tp])
                     = [Suc (ports_scanned (fst sw))]"
      using n0(2) by simp
    ultimately show ?thesis by blast
  qed
qed

section \<open>Properties of the loop over the completed futures\<close>

lemma scan_loop_Cons:
  "scan_loop ev pd host tp (p # ps) sw =
     scan_loop ev pd host tp ps
       (handle_future ev tp p (probe_outcome ev pd host p)
          (fst sw, snd (check_port ev pd host p (snd sw))))"
  using check_port_outcome [of ev pd host p "snd sw"]
  by (simp add: case_prod_beta)

lemma scan_loop_results:
  assumes "distinct ps"
  shows "\<exists>qs. results (fst (scan_loop ev pd host tp ps sw)) = results (fst sw) @ qs
             \<and> distinct (map port qs) \<and> port ` set qs \<subseteq> set ps
             \<and> (\<forall>r\<in>set qs. status r = OPEN \<and> probe_outcome ev pd host (port r) = Inr r)"
  using assms
proof (induction ps arbitrary: sw)
  case Nil
  then show ?case by simp
next
  case (Cons p ps)
  let ?sw1 = "handle_future ev tp p (probe_outcome ev pd host p)
                (fst sw, snd (check_port ev pd host p (snd sw)))"
  obtain q1 where q1: "results (fst ?sw1) = results (fst sw) @ q1"
    "q1 = [] \<or> (\<exists>r. probe_outcome ev pd host p = Inr r \<and> status r = OPEN \<and> q1 = [r])"
    using handle_future_results [of ev tp p "probe_outcome ev pd host p"
        "(fst sw, snd (check_port ev pd host p (snd sw)))"] by auto
  from Cons.prems have "distinct ps" and p: "p \<notin> set ps" by simp_all
  from Cons.IH [OF this(1), of ?sw1] obtain q2 where q2:
    "results (fst (scan_loop ev pd host tp ps ?sw1)) = results (fst ?sw1) @ q2"
    "distinct (map port q2)" "port ` set q2 \<subseteq> set ps"
    "\<forall>r\<in>set q2. status r = OPEN \<and> probe_outcome ev pd host (port r) = Inr r"
    by blast
  have port1: "port r = p" if "probe_outcome ev pd host p = Inr r" for r
    using that check_port_port [of ev pd host p empty_world r]
    by (simp add: probe_outcome_def)
  have "results (fst (scan_loop ev pd host tp (p # ps) sw)) = results (fst sw) @ (q1 @ q2)"
    using q1(1) q2(1) by (simp add: scan_loop_Cons del: scan_loop.simps(2))
  moreover have "distinct (map port (q1 @ q2))"
    using q1(2) q2(2,3) p port1 by auto
  moreover have "port ` set (q1 @ q2) \<subseteq> set (p # ps)"
    using q1(2) q2(3) port1 by auto
  moreover have "\<forall>r\<in>set (q1 @ q2). status r = OPEN \<and> probe_outcome ev pd host (port r) = Inr r"
    using q1(2) q2(4) port1 by auto
  ultimately show ?case by blast
qed

lemma scan_loop_prefix:
  "\<exists>qs. results (fst (scan_loop ev pd host tp ps sw)) = results (fst sw) @ qs"
proof (induction ps arbitrary: sw)
  case Nil
  then show ?case by simp
next
  case (Cons p ps)
  let ?sw1 = "handle_future ev tp p (probe_outcome ev pd host p)
                (fst sw, snd (check_port ev pd host p (snd sw)))"
  obtain q1 where "results (fst ?sw1) = results (fst sw) @ q1"
    using handle_future_results [of ev tp p "probe_outcome ev pd host p"
        "(fst sw, snd (check_port ev pd host p (snd sw)))"] by auto
  moreover obtain q2 where
    "results (fst (scan_loop ev pd host tp ps ?sw1)) = results (fst ?sw1) @ q2"
    using Cons.IH [of ?sw1] by blast
  ultimately show ?case
    by (simp add: scan_loop_Cons del: scan_loop.simps(2))
qed

lemma scan_loop_complete:
  assumes "\<forall>n. elapsed ev n \<noteq> 0" and "tp \<noteq> 0"
    and "p \<in> set ps" and "probe_outcome ev pd host p = Inr r" and "status r = OPEN"
  shows "r \<in> set (results (fst (scan_loop ev pd host tp ps sw)))"
  using assms(3)
proof (induction ps arbitrary: sw)
  case Nil
  then show ?case by simp
next
  case (Cons q ps)
  let ?sw1 = "handle_future ev tp q (probe_outcome ev pd host q)
                (fst sw, snd (check_port ev pd host q (snd sw)))"
  show ?case
  proof (cases "p = q")
    case True
    then have "r \<in> set (results (fst ?sw1))"
      using handle_future_complete [OF assms(1,2,5), of q] assms(4) by simp
    moreover obtain qs where
      "results (fst (scan_loop ev pd host tp ps ?sw1)) = results (fst ?sw1) @ qs"
      using scan_loop_prefix [of ev pd host tp ps ?sw1] by blast
    ultimately show ?thesis by (simp add: scan_loop_Cons del: scan_loop.simps(2))
  next
    case False
    with Cons.prems have "p \<in> set ps" by simp
    from Cons.IH [OF this, of ?sw1] show ?thesis by (simp add: scan_loop_Cons del: scan_loop.simps(2))
  qed
qed

lemma drain_stdout:
  "\<exists>new. stdout (drain ev pd host ps w) = stdout w @ new \<and> progress_counts new = []"
proof (induction ps arbitrary: w)
  case Nil
  then show ?case by simp
next
  case (Cons p ps)
  obtain n1 where n1: "stdout (snd (check_port ev pd host p w)) = stdout w @ n1"
    "progress_counts n1 = []"
    using check_port_stdout [of ev pd host p w] by blast
  obtain n2 where n2:
    "stdout (drain ev pd host ps (snd (check_port ev pd host p w)))
       = stdout (snd (check_port ev pd host p w)) @ n2"
    "progress_counts n2 = []"
    using Cons.IH [of "snd (check_port ev pd host p w)"] by blast
  have "stdout (drain ev pd host (p # ps) w) = stdout w @ (n1 @ n2)"
    using n1(1) n2(1) by simp
  moreover have "progress_counts (n1 @ n2) = []"
    using n1(2) n2(2) by simp
  ultimately show ?case by blast
qed

lemma scan_loop_stdout:
  "\<exists>new. stdout (snd (scan_loop ev pd host tp ps sw)) = stdout (snd sw) @ new
         \<and> sorted_wrt (<) (progress_counts new)
         \<and> (\<forall>n\<in>set (progress_counts new).
               ports_scanned (fst sw) < n \<and> n \<le> ports_scanned (fst (scan_loop ev pd host tp ps sw)))
         \<and> ports_scanned (fst sw) \<le> ports_scanned (fst (scan_loop ev pd host tp ps sw))
         \<and> ports_scanned (fst (scan_loop ev pd host tp ps sw)) \<le> ports_scanned (fst sw) + length ps"
proof (induction ps arbitrary: sw)
  case Nil
  show ?case by (intro exI [of _ "[]"]) simp
next
  case (Cons p ps)
  let ?w0 = "snd (check_port ev pd host p (snd sw))"
  let ?sw1 = "handle_future ev tp p (probe_outcome ev pd host p) (fst sw, ?w0)"
  let ?sw2 = "scan_loop ev pd host tp ps ?sw1"
  obtain n0 where n0: "stdout ?w0 = stdout (snd sw) @ n0" "progress_counts n0 = []"
    using check_port_stdout [of ev pd host p "snd sw"] by blast
  obtain n1 where n1: "stdout (snd ?sw1) = stdout ?w0 @ n1"
    "progress_counts n1 = [] \<or> progress_counts n1 = [Suc (ports_scanned (fst sw))]"
    "ports_scanned (fst sw) \<le> ports_scanned (fst ?sw1)"
    "progress_counts n1 \<noteq> [] \<longrightarrow> ports_scanned (fst ?sw1) = Suc (ports_scanned (fst sw))"
    "ports_scanned (fst ?sw1) \<le> Suc (ports_scanned (fst sw))"
    using handle_future_stdout [of ev tp p "probe_outcome ev pd host p" "(fst sw, ?w0)"]
    by auto
  obtain n2 where n2: "stdout (snd ?sw2) = stdout (snd ?sw1) @ n2"
    "sorted_wrt (<) (progress_counts n2)"
    "\<forall>n\<in>set (progress_counts n2). ports_scanned (fst ?sw1) < n \<and> n \<le> ports_scanned (fst ?sw2)"
    "ports_scanned (fst ?sw1) \<le> ports_scanned (fst ?sw2)"
    "ports_scanned (fst ?sw2) \<le> ports_scanned (fst ?sw1) + length ps"
    using Cons.IH [of ?sw1] by blast
  have step: "scan_loop ev pd host tp (p # ps) sw = ?sw2"
    by (rule scan_loop_Cons)
  have a: "stdout (snd ?sw2) = stdout (snd sw) @ (n0 @ n1 @ n2)"
    using n0(1) n1(1) n2(1) by simp
  have pc: "progress_counts (n0 @ n1 @ n2) = progress_counts n1 @ progress_counts n2"
    using n0(2) by simp
  have b: "sorted_wrt (<) (progress_counts (n0 @ n1 @ n2))"
    unfolding pc using n1(2,4) n2(2,3) by (auto simp: sorted_wrt_append)
  have c: "\<forall>n\<in>set (progress_counts (n0 @ n1 @ n2)).
             ports_scanned (fst sw) < n \<and> n \<le> ports_scanned (fst ?sw2)"
    unfolding pc using n1(2,3,4) n2(3,4) by auto
  have d: "ports_scanned (fst sw) \<le> ports_scanned (fst ?sw2)"
    using n1(3) n2(4) by simp
  have e: "ports_scanned (fst ?sw2) \<le> ports_scanned (fst sw) + length (p # ps)"
    using n1(5) n2(5) by simp
  show ?case
    unfolding step using a b c d e by blast
qed

lemma scan_loop_error_logged:
  assumes "p \<in> set ps" and "probe_outcome ev pd host p = Inl x"
  shows "ErrorScanning p x \<in> set (stdout (snd (scan_loop ev pd host tp ps sw)))"
  using assms(1)
proof (induction ps arbitrary: sw)
  case Nil
  then show ?case by simp
next
  case (Cons q ps)
  let ?sw1 = "handle_future ev tp q (probe_outcome ev pd host q)
                (fst sw, snd (check_port ev pd host q (snd sw)))"
  show ?case
  proof (cases "p = q")
    case True
    then have "ErrorScanning p x \<in> set (stdout (snd ?sw1))"
      using assms(2) by (simp add: handle_future_def print_def)
    moreover obtain new where
      "stdout (snd (scan_loop ev pd host tp ps ?sw1)) = stdout (snd ?sw1) @ new"
      using scan_loop_stdout [of ev pd host tp ps ?sw1] by blast
    ultimately show ?thesis
      by (simp add: scan_loop_Cons del: scan_loop.simps(2))
  next
    case False
    with Cons.prems have "p \<in> set ps" by simp
    from Cons.IH [OF this, of ?sw1] show ?thesis
      by (simp add: scan_loop_Cons del: scan_loop.simps(2))
  qed
qed

lemma multiples_step:
  "(if Suc c mod 1000 = 0 then {Suc c} else {})
     \<union> {n. Suc c < n \<and> n \<le> Suc c + k \<and> n mod 1000 = (0::nat)}
   = {n. c < n \<and> n \<le> c + Suc k \<and> n mod 1000 = 0}" (is "?A = ?B")
proof (rule set_eqI)
  fix n
  show "n \<in> ?A \<longleftrightarrow> n \<in> ?B"
  proof (cases "n = Suc c")
    case True
    then show ?thesis by simp
  next
    case False
    then have "c < n \<longleftrightarrow> Suc c < n" by arith
    then show ?thesis using False by (simp split: if_splits)
  qed
qed

lemma scan_loop_progress_lines:
  assumes "\<forall>n. elapsed ev n \<noteq> 0" and "tp \<noteq> 0"
    and "\<forall>p\<in>set ps. \<exists>r. probe_outcome ev pd host p = Inr r"
  shows "ports_scanned (fst (scan_loop ev pd host tp ps sw)) = ports_scanned (fst sw) + length ps
       \<and> (\<exists>new. stdout (snd (scan_loop ev pd host tp ps sw)) = stdout (snd sw) @ new
             \<and> set (progress_counts new)
                 = {n. ports_scanned (fst sw) < n \<and> n \<le> ports_scanned (fst sw) + length ps
                       \<and> n mod 1000 = 0})"
  using assms(3)
proof (induction ps arbitrary: sw)
  case Nil
  show ?case by (intro conjI exI [of _ "[]"]) auto
next
  case (Cons p ps)
  let ?c = "ports_scanned (fst sw)"
  let ?w0 = "snd (check_port ev pd host p (snd sw))"
  obtain r where r: "probe_outcome ev pd host p = Inr r"
    using Cons.prems by auto
  let ?sw1 = "handle_future ev tp p (Inr r) (fst sw, ?w0)"
  let ?sw2 = "scan_loop ev pd host tp ps ?sw1"
  have step: "scan_loop ev pd host tp (p # ps) sw = ?sw2"
    using r by (simp add: scan_loop_Cons del: scan_loop.simps(2))
  obtain n0 where n0: "stdout ?w0 = stdout (snd sw) @ n0" "progress_counts n0 = []"
    using check_port_stdout [of ev pd host p "snd sw"] by blast
  obtain n1 where n1: "ports_scanned (fst ?sw1) = Suc ?c"
    "stdout (snd ?sw1) = stdout ?w0 @ n1"
    "progress_counts n1 = (if Suc ?c mod 1000 = 0 then [Suc ?c] else [])"
    using handle_future_counted [OF assms(1,2), of p r "(fst sw, ?w0)"] by auto
  from Cons.prems have "\<forall>q\<in>set ps. \<exists>r. probe_outcome ev pd host q = Inr r" by simp
  from Cons.IH [OF this, of ?sw1] obtain n2 where n2:
    "ports_scanned (fst ?sw2) = ports_scanned (fst ?sw1) + length ps"
    "stdout (snd ?sw2) = stdout (snd ?sw1) @ n2"
    "set (progress_counts n2)
       = {n. ports_scanned (fst ?sw1) < n \<and> n \<le> ports_scanned (fst ?sw1) + length ps
             \<and> n mod 1000 = 0}"
    by blast
  have a: "ports_scanned (fst ?sw2) = ?c + length (p # ps)"
    using n1(1) n2(1) by simp
  have b: "stdout (snd ?sw2) = stdout (snd sw) @ (n0 @ n1 @ n2)"
    using n0(1) n1(2) n2(2) by simp
  have "set (progress_counts (n0 @ n1 @ n2))
          = (if Suc ?c mod 1000 = 0 then {Suc ?c} else {})
            \<union> {n. Suc ?c < n \<and> n \<le> Suc ?c + length ps \<and> n mod 1000 = 0}"
    using n0(2) n1(1,3) n2(3) by simp
  also have "\<dots> = {n. ?c < n \<and> n \<le> ?c + length (p # ps) \<and> n mod 1000 = 0}"
    using multiples_step [of ?c "length ps"] by simp
  finally have c: "set (progress_counts (n0 @ n1 @ n2))
      = {n. ?c < n \<and> n \<le> ?c + length (p # ps) \<and> n mod 1000 = 0}" .
  show ?case
    unfolding step using a b c by blast
qed

section \<open>Properties of \<^verbatim>\<open>scan\<close>\<close>

lemma scan_returned:
  assumes "0 < threads"
  shows "returned (scan ev pd host start_port end_port threads sched w) =
           Inr (sort_key port (results (fst (scan_loop ev pd host (end_port - start_port + 1)
                  (handled start_port end_port sched) (\<lparr>results = [], ports_scanned = 0\<rparr>, w)))))"
  using assms
  by (simp add: scan_def handled_def Let_def case_prod_beta
      split: option.splits interrupt.splits)

lemma handled_distinct: "distinct (handled start_port end_port sched)"
  by (simp add: handled_def as_completed_distinct split: option.splits interrupt.splits)

lemma handled_subset: "set (handled start_port end_port sched) \<subseteq> {start_port..end_port}"
  by (auto simp: handled_def as_completed_set split: option.splits interrupt.splits
      dest: in_set_takeD)

lemma handled_length: "length (handled start_port end_port sched) \<le> length [start_port..end_port]"
  by (simp add: handled_def as_completed_length split: option.splits interrupt.splits)

lemma scan_printed:
  "\<exists>new. stdout (world_after (scan ev pd host start_port end_port threads sched w)) = stdout w @ new
     \<and> sorted_wrt (<) (progress_counts new)
     \<and> (\<forall>n\<in>set (progress_counts new). n \<le> length [start_port..end_port])"
proof -
  let ?st0 = "\<lparr>results = [], ports_scanned = 0\<rparr>"
  let ?tp = "end_port - start_port + 1"
  let ?order = "as_completed (picks sched) [start_port..end_port]"
  let ?loop = "scan_loop ev pd host ?tp (handled start_port end_port sched) (?st0, w)"
  obtain n1 where n1: "stdout (snd ?loop) = stdout w @ n1" "sorted_wrt (<) (progress_counts n1)"
    "\<forall>n\<in>set (progress_counts n1). n \<le> ports_scanned (fst ?loop)"
    "ports_scanned (fst ?loop) \<le> length (handled start_port end_port sched)"
    using scan_loop_stdout [of ev pd host ?tp "handled start_port end_port sched" "(?st0, w)"]
    by auto
  have bound: "\<forall>n\<in>set (progress_counts n1). n \<le> length [start_port..end_port]"
    using n1(3,4) handled_length [of start_port end_port sched] by fastforce
  show ?thesis
  proof (cases "threads \<le> 0")
    case True
    then have "stdout (world_after (scan ev pd host start_port end_port threads sched w)) = stdout w @ []"
      by (simp add: scan_def)
    then show ?thesis
      by (metis empty_iff empty_set progress_counts.simps(1) sorted_wrt.simps(1))
  next
    case False
    show ?thesis
    proof (cases "interrupted sched")
      case None
      then have "stdout (world_after (scan ev pd host start_port end_port threads sched w)) = stdout w @ n1"
        using False n1(1) by (simp add: scan_def handled_def Let_def case_prod_beta)
      then show ?thesis using n1(2) bound by blast
    next
      case (Some i)
      show ?thesis
      proof (cases i)
        case (DuringSubmit k)
        let ?ps = "as_completed (picks sched) (take k [start_port..end_port])"
        obtain n2 where n2: "stdout (drain ev pd host ?ps w) = stdout w @ n2" "progress_counts n2 = []"
          using drain_stdout [of ev pd host ?ps w] by blast
        have "stdout (world_after (scan ev pd host start_port end_port threads sched w))
                = stdout w @ (n2 @ [ScanInterrupted])"
          using False Some DuringSubmit n2(1) by (simp add: scan_def Let_def print_def)
        moreover have "progress_counts (n2 @ [ScanInterrupted]) = []"
          using n2(2) by simp
        ultimately show ?thesis
          by (metis empty_iff empty_set sorted_wrt.simps(1))
      next
        case (DuringLoop j)
        have h: "handled start_port end_port sched = take j ?order"
          using Some DuringLoop by (simp add: handled_def)
        obtain n2 where n2: "stdout (drain ev pd host (drop j ?order) (snd ?loop)) = stdout (snd ?loop) @ n2"
          "progress_counts n2 = []"
          using drain_stdout [of ev pd host "drop j ?order" "snd ?loop"] by blast
        have "stdout (world_after (scan ev pd host start_port end_port threads sched w))
                = stdout w @ (n1 @ n2 @ [ScanInterrupted])"
          using False Some DuringLoop n1(1) n2(1) h
          by (simp add: scan_def Let_def print_def case_prod_beta)
        moreover have "progress_counts (n1 @ n2 @ [ScanInterrupted]) = progress_counts n1"
          using n2(2) by simp
        ultimately show ?thesis using n1(2) bound by metis
      next
        case (DuringFuture j)
        have h: "handled start_port end_port sched = take j ?order"
          using Some DuringFuture by (simp add: handled_def)
        show ?thesis
        proof (cases "drop j ?order")
          case Nil
          then have "stdout (world_after (scan ev pd host start_port end_port threads sched w))
                = stdout w @ (n1 @ [ScanInterrupted])"
            using False Some DuringFuture n1(1) h
            by (simp add: scan_def Let_def print_def case_prod_beta)
          moreover have "progress_counts (n1 @ [ScanInterrupted]) = progress_counts n1"
            by simp
          ultimately show ?thesis using n1(2) bound by metis
        next
          case (Cons p ps)
          let ?w2 = "interrupted_future ev pd host ?tp p (fst ?loop, snd ?loop)"
          obtain n2 where n2: "stdout ?w2 = stdout (snd ?loop) @ n2"
            "progress_counts n2 = [] \<or> progress_counts n2 = [Suc (ports_scanned (fst ?loop))]"
            using interrupted_future_stdout [of ev pd host ?tp p "(fst ?loop, snd ?loop)"] by auto
          obtain n3 where n3: "stdout (drain ev pd host ps ?w2) = stdout ?w2 @ n3"
            "progress_counts n3 = []"
            using drain_stdout [of ev pd host ps ?w2] by blast
          have "stdout (world_after (scan ev pd host start_port end_port threads sched w))
                = stdout w @ (n1 @ n2 @ n3 @ [ScanInterrupted])"
            using False Some DuringFuture Cons n1(1) n2(1) n3(1) h
            by (simp add: scan_def Let_def print_def case_prod_beta)
          moreover have pc: "progress_counts (n1 @ n2 @ n3 @ [ScanInterrupted])
                           = progress_counts n1 @ progress_counts n2"
            using n3(2) by simp
          moreover have "sorted_wrt (<) (progress_counts n1 @ progress_counts n2)"
            using n1(2,3) n2(2) by (auto simp: sorted_wrt_append)
          moreover have "j < length ?order"
            using Cons by (cases "j < length ?order") simp_all
          then have "Suc (ports_scanned (fst ?loop)) \<le> length [start_port..end_port]"
            using n1(4) h by (simp add: as_completed_length)
          then have "\<forall>n\<in>set (progress_counts n1 @ progress_counts n2).
                       n \<le> length [start_port..end_port]"
            using bound n2(2) by auto
          ultimately show ?thesis by metis
        qed
      qed
    qed
  qed
qed

lemma collected_results:
  "\<exists>qs. results (fst (scan_loop ev pd host tp (handled start_port end_port sched)
                       (\<lparr>results = [], ports_scanned = 0\<rparr>, w))) = qs
        \<and> distinct (map port qs)
        \<and> port ` set qs \<subseteq> set (handled start_port end_port sched)
        \<and> (\<forall>r\<in>set qs. status r = OPEN \<and> probe_outcome ev pd host (port r) = Inr r)"
  using scan_loop_results [OF handled_distinct, of ev pd host tp start_port end_port sched
      "(\<lparr>results = [], ports_scanned = 0\<rparr>, w)"]
  by simp

lemma strictly_sorted_sort_key:
  "distinct (map f xs) \<Longrightarrow> sorted_wrt (<) (map f (sort_key f xs))"
proof -
  assume d: "distinct (map f xs)"
  have "mset (map f (sort_key f xs)) = mset (map f xs)" by simp
  then have "distinct (map f (sort_key f xs))"
    using d by (metis mset_eq_imp_distinct_iff)
  then show ?thesis
    by (simp add: strict_sorted_iff)
qed

lemma scan_progress_lines:
  assumes "0 < threads" and "interrupted sched = None"
    and "\<forall>n. elapsed ev n \<noteq> 0" and "start_port \<le> end_port"
    and "\<forall>p\<in>{start_port..end_port}. \<exists>r. probe_outcome ev pd host p = Inr r"
  shows "set (progress_counts
            (printed w (world_after (scan ev pd host start_port end_port threads sched w))))
         = {n. 0 < n \<and> n \<le> length [start_port..end_port] \<and> n mod 1000 = 0}"
proof -
  let ?tp = "end_port - start_port + 1"
  let ?hs = "as_completed (picks sched) [start_port..end_port]"
  let ?loop = "scan_loop ev pd host ?tp ?hs (\<lparr>results = [], ports_scanned = 0\<rparr>, w)"
  have tp: "?tp \<noteq> 0" using assms(4) by simp
  have ok: "\<forall>p\<in>set ?hs. \<exists>r. probe_outcome ev pd host p = Inr r"
    using assms(5) by (simp add: as_completed_set)
  obtain new where new: "stdout (snd ?loop) = stdout w @ new"
    "set (progress_counts new) = {n. 0 < n \<and> n \<le> length ?hs \<and> n mod 1000 = 0}"
    using scan_loop_progress_lines [OF assms(3) tp ok, of "(\<lparr>results = [], ports_scanned = 0\<rparr>, w)"]
    by auto
  have "world_after (scan ev pd host start_port end_port threads sched w) = snd ?loop"
    using assms(1,2) by (simp add: scan_def Let_def case_prod_beta)
  then have "printed w (world_after (scan ev pd host start_port end_port threads sched w)) = new"
    using new(1) by (simp add: printed_def)
  then show ?thesis
    using new(2) by (simp add: as_completed_length)
qed

subsection \<open>The sample scans\<close>

lemma sample_scan_returned:
  "returned (scan sample_env (JObj sample_table) ''example.com'' 79 83 2 sample_sched empty_world)
     = Inr [\<lparr>port = 80, status = OPEN, service = JStr ''HTTP''\<rparr>,
            \<lparr>port = 83, status = OPEN, service = JStr ''Unknown''\<rparr>]"
  by code_simp

lemma sample_handled: "handled 79 83 interrupted_sched = [83, 79, 80]"
  by code_simp

lemma sample_probe_82:
  "probe_outcome sample_env (JObj sample_table) ''example.com'' 82 = Inl OverflowError"
  by code_simp

subsection \<open>The returned list\<close>

text \<open>
  C1. Whenever \<^verbatim>\<open>scan\<close> returns a list, under every schedule and interruption, every
  result in it is classified \<open>OPEN\<close>, and its ports are strictly ascending, hence without
  duplicates.
\<close>

theorem scan_returns_open_sorted:
  assumes "returned (scan ev pd host start_port end_port threads sched w) = Inr rs"
  shows "(\<forall>r\<in>set rs. status r = OPEN)
       \<and> sorted_wrt (<) (map port rs)
       \<and> distinct (map port rs)"
proof -
  have t: "0 < threads"
    using assms by (cases "0 < threads") (simp_all add: scan_def)
  obtain qs where qs: "rs = sort_key port qs" "distinct (map port qs)"
    "\<forall>r\<in>set qs. status r = OPEN"
    using collected_results [of ev pd host "end_port - start_port + 1" start_port end_port sched w]
      scan_returned [OF t, of ev pd host start_port end_port sched w] assms
    by auto
  have "sorted_wrt (<) (map port rs)"
    unfolding qs(1) using qs(2) by (rule strictly_sorted_sort_key)
  then show ?thesis
    using qs(1,3) by (auto simp: strict_sorted_iff)
qed

theorem scan_returns_open_sorted_witness:
  "returned (scan sample_env (JObj sample_table) ''example.com'' 79 83 2 sample_sched empty_world)
     = Inr [\<lparr>port = 80, status = OPEN, service = JStr ''HTTP''\<rparr>,
            \<lparr>port = 83, status = OPEN, service = JStr ''Unknown''\<rparr>]
   \<and> set (map status [\<lparr>port = 80, status = OPEN, service = JStr ''HTTP''\<rparr>,
                        \<lparr>port = 83, status = OPEN, service = JStr ''Unknown''\<rparr>]) = {OPEN}
   \<and> sorted_wrt (<) (map port [\<lparr>port = 80, status = OPEN, service = JStr ''HTTP''\<rparr>,
                                \<lparr>port = 83, status = OPEN, service = JStr ''Unknown''\<rparr>])
   \<and> distinct (map port [\<lparr>port = 80, status = OPEN, service = JStr ''HTTP''\<rparr>,
                          \<lparr>port = 83, status = OPEN, service = JStr ''Unknown''\<rparr>])"
  using sample_scan_returned scan_returns_open_sorted [OF sample_scan_returned] by auto

subsection \<open>Interruption and failing probes\<close>

text \<open>
  C5. When an interruption reaches a scan whose pool was created, \<^verbatim>\<open>scan\<close> raises nothing:
  it returns a list, strictly ascending by port, that is a permutation of the results
  the loop had collected when the interruption came. Every result in it is the \<open>OPEN\<close>
  result of a port handled before the interruption, and when the clock has advanced at
  every progress report these are all of them.
\<close>

theorem scan_interrupted_returns_collected:
  assumes "0 < threads" and "interrupted sched = Some i"
  shows "\<exists>rs. returned (scan ev pd host start_port end_port threads sched w) = Inr rs
             \<and> sorted_wrt (<) (map port rs)
             \<and> mset rs = mset (results (fst (scan_loop ev pd host (end_port - start_port + 1)
                   (handled start_port end_port sched) (\<lparr>results = [], ports_scanned = 0\<rparr>, w))))
             \<and> set rs \<subseteq> {r. status r = OPEN \<and>
                   (\<exists>p\<in>set (handled start_port end_port sched). probe_outcome ev pd host p = Inr r)}
             \<and> ((\<forall>n. elapsed ev n \<noteq> 0) \<longrightarrow>
                  set rs = {r. status r = OPEN \<and>
                   (\<exists>p\<in>set (handled start_port end_port sched). probe_outcome ev pd host p = Inr r)})"
proof -
  let ?tp = "end_port - start_port + 1"
  let ?hs = "handled start_port end_port sched"
  let ?qs = "results (fst (scan_loop ev pd host ?tp ?hs (\<lparr>results = [], ports_scanned = 0\<rparr>, w)))"
  let ?rs = "sort_key port ?qs"
  let ?S = "{r. status r = OPEN \<and> (\<exists>p\<in>set ?hs. probe_outcome ev pd host p = Inr r)}"
  have qs: "distinct (map port ?qs)" "port ` set ?qs \<subseteq> set ?hs"
    "\<forall>r\<in>set ?qs. status r = OPEN \<and> probe_outcome ev pd host (port r) = Inr r"
    using collected_results [of ev pd host ?tp start_port end_port sched w] by auto
  have ret: "returned (scan ev pd host start_port end_port threads sched w) = Inr ?rs"
    by (rule scan_returned [OF assms(1)])
  have srt: "sorted_wrt (<) (map port ?rs)"
    using qs(1) by (rule strictly_sorted_sort_key)
  have sub: "set ?rs \<subseteq> ?S"
    using qs(2,3) by auto
  have sup: "?S \<subseteq> set ?rs" if clock: "\<forall>n. elapsed ev n \<noteq> 0"
  proof
    fix r assume "r \<in> ?S"
    then obtain p where p: "status r = OPEN" "p \<in> set ?hs" "probe_outcome ev pd host p = Inr r"
      by blast
    from p(2) have "p \<in> {start_port..end_port}"
      using handled_subset by blast
    then have "?tp \<noteq> 0" by simp
    from scan_loop_complete [OF clock this p(2,3,1)] show "r \<in> set ?rs" by simp
  qed
  have perm: "mset ?rs = mset ?qs" by simp
  show ?thesis
    using ret srt perm sub sup by blast
qed

theorem scan_interrupted_returns_collected_witness:
  "\<exists>rs. returned (scan sample_env (JObj sample_table) ''example.com'' 79 83 2
                    interrupted_sched empty_world) = Inr rs
       \<and> sorted_wrt (<) (map port rs)
       \<and> set rs = {r. status r = OPEN \<and>
            (\<exists>p\<in>{83, 79, 80}. probe_outcome sample_env (JObj sample_table) ''example.com'' p = Inr r)}"
proof -
  have t: "(0::int) < 2" by simp
  have i: "interrupted interrupted_sched = Some (DuringLoop 3)"
    by (simp add: interrupted_sched_def)
  have clock: "\<forall>n. elapsed sample_env n \<noteq> 0"
    by (simp add: sample_env_def)
  show ?thesis
    using scan_interrupted_returns_collected [OF t i, of sample_env "JObj sample_table"
        "''example.com''" 79 83 empty_world] clock
    unfolding sample_handled by auto
qed

text \<open>
  C6. In a scan that is not interrupted and whose pool was created, let the probe task of
  a port \<open>p0\<close> of the range raise an exception \<open>x\<close>. Then \<^verbatim>\<open>scan\<close> returns a list (the
  exception does not leave \<^verbatim>\<open>scan\<close>), \<open>p0\<close> is not among the ports of the list, the error
  is reported on the console with its port, every result in the list is the \<open>OPEN\<close>
  result of a port of the range and, when the clock has advanced at every progress
  report, the list holds the \<open>OPEN\<close> result of every port of the range whose probe
  returned one.
\<close>

theorem scan_survives_failing_probe:
  assumes "0 < threads" and "interrupted sched = None"
    and "start_port \<le> p0" and "p0 \<le> end_port" and "probe_outcome ev pd host p0 = Inl x"
  shows "\<exists>rs. returned (scan ev pd host start_port end_port threads sched w) = Inr rs
             \<and> p0 \<notin> port ` set rs
             \<and> ErrorScanning p0 x \<in> set (stdout (world_after
                  (scan ev pd host start_port end_port threads sched w)))
             \<and> set rs \<subseteq> {r. status r = OPEN \<and>
                   (\<exists>p\<in>{start_port..end_port}. probe_outcome ev pd host p = Inr r)}
             \<and> ((\<forall>n. elapsed ev n \<noteq> 0) \<longrightarrow>
                  set rs = {r. status r = OPEN \<and>
                   (\<exists>p\<in>{start_port..end_port}. probe_outcome ev pd host p = Inr r)})"
proof -
  let ?tp = "end_port - start_port + 1"
  let ?hs = "handled start_port end_port sched"
  let ?loop = "scan_loop ev pd host ?tp ?hs (\<lparr>results = [], ports_scanned = 0\<rparr>, w)"
  let ?qs = "results (fst ?loop)"
  let ?rs = "sort_key port ?qs"
  let ?S = "{r. status r = OPEN \<and> (\<exists>p\<in>{start_port..end_port}. probe_outcome ev pd host p = Inr r)}"
  have hs: "set ?hs = {start_port..end_port}"
    using assms(2) by (simp add: handled_def as_completed_set)
  have qs: "\<forall>r\<in>set ?qs. status r = OPEN \<and> probe_outcome ev pd host (port r) = Inr r"
    "port ` set ?qs \<subseteq> set ?hs"
    using collected_results [of ev pd host ?tp start_port end_port sched w] by auto
  have ret: "returned (scan ev pd host start_port end_port threads sched w) = Inr ?rs"
    by (rule scan_returned [OF assms(1)])
  have excl: "p0 \<notin> port ` set ?rs"
    using qs(1) assms(5) by auto
  have "world_after (scan ev pd host start_port end_port threads sched w) = snd ?loop"
    using assms(1,2) by (simp add: scan_def handled_def Let_def case_prod_beta)
  moreover have "p0 \<in> set ?hs"
    using hs assms(3,4) by simp
  ultimately have logged: "ErrorScanning p0 x \<in> set (stdout (world_after
      (scan ev pd host start_port end_port threads sched w)))"
    using scan_loop_error_logged [OF _ assms(5), of ?hs ?tp "(\<lparr>results = [], ports_scanned = 0\<rparr>, w)"]
    by simp
  have sub: "set ?rs \<subseteq> ?S"
    using qs hs by auto
  have sup: "?S \<subseteq> set ?rs" if clock: "\<forall>n. elapsed ev n \<noteq> 0"
  proof
    fix r assume "r \<in> ?S"
    then obtain p where p: "status r = OPEN" "p \<in> {start_port..end_port}"
      "probe_outcome ev pd host p = Inr r"
      by blast
    from p(2) have "?tp \<noteq> 0" by simp
    moreover from p(2) hs have "p \<in> set ?hs" by simp
    ultimately show "r \<in> set ?rs"
      using scan_loop_complete [OF clock _ _ p(3,1)] by simp
  qed
  show ?thesis
    using ret excl logged sub sup by blast
qed

theorem scan_survives_failing_probe_witness:
  "\<exists>rs. returned (scan sample_env (JObj sample_table) ''example.com'' 79 83 2
                    sample_sched empty_world) = Inr rs
       \<and> 82 \<notin> port ` set rs
       \<and> ErrorScanning 82 OverflowError \<in> set (stdout (world_after
            (scan sample_env (JObj sample_table) ''example.com'' 79 83 2 sample_sched empty_world)))
       \<and> set rs = {r. status r = OPEN \<and>
            (\<exists>p\<in>{79..83}. probe_outcome sample_env (JObj sample_table) ''example.com'' p = Inr r)}"
proof -
  have t: "(0::int) < 2" by simp
  have i: "interrupted sample_sched = None"
    by (simp add: sample_sched_def)
  have r: "(79::int) \<le> 82" "(82::int) \<le> 83" by simp_all
  have clock: "\<forall>n. elapsed sample_env n \<noteq> 0"
    by (simp add: sample_env_def)
  show ?thesis
    using scan_survives_failing_probe [OF t i r sample_probe_82, of empty_world] clock
    by auto
qed

subsection \<open>Progress lines\<close>

text \<open>
  C8. The completed-counts of the progress lines a scan prints, in the order printed, are
  strictly increasing (so they never decrease), and none of them exceeds the number of
  ports in the range.
\<close>

theorem scan_progress_monotone:
  "sorted_wrt (<) (progress_counts
       (printed w (world_after (scan ev pd host start_port end_port threads sched w))))
   \<and> (\<forall>n\<in>set (progress_counts
             (printed w (world_after (scan ev pd host start_port end_port threads sched w)))).
         n \<le> length [start_port..end_port])"
proof -
  obtain new where new:
    "stdout (world_after (scan ev pd host start_port end_port threads sched w)) = stdout w @ new"
    "sorted_wrt (<) (progress_counts new)"
    "\<forall>n\<in>set (progress_counts new). n \<le> length [start_port..end_port]"
    using scan_printed [of ev pd host start_port end_port threads sched w] by blast
  have "printed w (world_after (scan ev pd host start_port end_port threads sched w)) = new"
    using new(1) by (simp add: printed_def)
  then show ?thesis
    using new(2,3) by simp
qed

theorem scan_progress_monotone_witness:
  "set (progress_counts (printed empty_world (world_after
       (scan sample_env (JObj []) ''example.com'' 1001 3000 16 sample_sched empty_world))))
     = {1000, 2000}
   \<and> sorted_wrt (<) (progress_counts (printed empty_world (world_after
       (scan sample_env (JObj []) ''example.com'' 1001 3000 16 sample_sched empty_world))))"
proof -
  have t: "(0::int) < 16" and r: "(1001::int) \<le> 3000" by simp_all
  have i: "interrupted sample_sched = None"
    by (simp add: sample_sched_def)
  have clock: "\<forall>n. elapsed sample_env n \<noteq> 0"
    by (simp add: sample_env_def)
  have ok: "\<forall>p\<in>{1001..3000}. \<exists>r. probe_outcome sample_env (JObj []) ''example.com'' p = Inr r"
    by (simp add: probe_outcome_def check_port_defs sample_env_def get_service_def
        get_service_body_def)
  have len: "length [1001..3000::int] = 2000" by simp
  have "{n::nat. 0 < n \<and> n \<le> 2000 \<and> n mod 1000 = 0} = {1000, 2000}"
    by auto
  then have "set (progress_counts (printed empty_world (world_after
       (scan sample_env (JObj []) ''example.com'' 1001 3000 16 sample_sched empty_world))))
     = {1000, 2000}"
    using scan_progress_lines [OF t i clock r ok, of empty_world] unfolding len by simp
  moreover note scan_progress_monotone [of empty_world sample_env "JObj []" "''example.com''"
      1001 3000 16 sample_sched]
  ultimately show ?thesis by blast
qed

subsection \<open>Requests outside the validated invariant\<close>

text \<open>
  C10, amended. For every scan with \<open>threads \<ge> 1\<close> and \<open>start_port > end_port\<close>, \<^verbatim>\<open>scan\<close>
  submits no probe, creates no socket and returns the empty list. (With \<open>threads \<le> 0\<close>
  the pool constructor raises \<open>ValueError\<close>, whatever the range: the counterexample.)
\<close>

theorem scan_empty_range:
  assumes "0 < threads" and "end_port < start_port"
  shows "returned (scan ev pd host start_port end_port threads sched w) = Inr []
       \<and> submitted (scan ev pd host start_port end_port threads sched w) = []
       \<and> live (world_after (scan ev pd host start_port end_port threads sched w)) = live w
       \<and> fresh (world_after (scan ev pd host start_port end_port threads sched w)) = fresh w"
  using assms
  by (simp add: scan_def Let_def print_def split: option.splits interrupt.splits)

theorem scan_empty_range_witness:
  "returned (scan sample_env (JObj sample_table) ''example.com'' 10 5 16 sample_sched empty_world) = Inr []
   \<and> submitted (scan sample_env (JObj sample_table) ''example.com'' 10 5 16 sample_sched empty_world) = []"
proof -
  have t: "(0::int) < 16" and r: "(5::int) < 10" by simp_all
  show ?thesis
    using scan_empty_range [OF t r, of sample_env "JObj sample_table" "''example.com''"
        sample_sched empty_world]
    by simp
qed

text \<open>
  C10 as stated fails for a request with \<open>threads = 0\<close>: the range 10 to 5 is empty, and
  \<^verbatim>\<open>scan\<close> raises \<open>ValueError\<close> instead of returning the empty list.
\<close>

theorem scan_empty_range_counterexample:
  "returned (scan sample_env (JObj sample_table) ''example.com'' 10 5 0 sample_sched empty_world)
     = Inl ValueError"
  by (simp add: scan_def)

text \<open>
  C3, amended. A scan request with \<open>threads < 1\<close> is surfaced to the caller as an error
  (\<open>ValueError\<close>) before any probe is submitted and with the world untouched. \<^verbatim>\<open>scan\<close> does
  not validate the port range or the host: with \<open>threads \<ge> 1\<close> it returns a list for
  every \<open>start_port\<close>, \<open>end_port\<close> and \<open>host\<close>.
\<close>

theorem scan_validates_threads_only:
  "(threads < 1 \<longrightarrow>
      returned (scan ev pd host start_port end_port threads sched w) = Inl ValueError
      \<and> submitted (scan ev pd host start_port end_port threads sched w) = []
      \<and> world_after (scan ev pd host start_port end_port threads sched w) = w)
   \<and> (1 \<le> threads \<longrightarrow>
      (\<exists>rs. returned (scan ev pd host start_port end_port threads sched w) = Inr rs))"
  by (simp add: scan_def Let_def case_prod_beta split: option.splits interrupt.splits)

theorem scan_validates_threads_only_witness:
  "returned (scan sample_env (JObj sample_table) ''example.com'' 1 1024 0 sample_sched empty_world)
     = Inl ValueError
   \<and> submitted (scan sample_env (JObj sample_table) ''example.com'' 1 1024 0 sample_sched empty_world) = []
   \<and> world_after (scan sample_env (JObj sample_table) ''example.com'' 1 1024 0 sample_sched empty_world)
       = empty_world
   \<and> (\<exists>rs. returned (scan sample_env (JObj sample_table) ''example.com'' 0 70000 16
                sample_sched empty_world) = Inr rs)"
  using scan_validates_threads_only [of 0 sample_env "JObj sample_table" "''example.com''" 1 1024
      sample_sched empty_world]
    scan_validates_threads_only [of 16 sample_env "JObj sample_table" "''example.com''" 0 70000
      sample_sched empty_world]
  by simp

text \<open>
  C3 as stated fails for the request with \<open>start_port = end_port = 0\<close>, which violates
  \<open>1 \<le> start_port\<close>: \<^verbatim>\<open>scan\<close> returns a list, no error is raised, and the probe of port 0
  has been submitted and has created its socket.
\<close>

theorem scan_unvalidated_range_counterexample:
  "returned (scan sample_env (JObj sample_table) ''example.com'' 0 0 16 sample_sched empty_world) = Inr []
   \<and> submitted (scan sample_env (JObj sample_table) ''example.com'' 0 0 16 sample_sched empty_world) = [0]
   \<and> fresh (world_after
        (scan sample_env (JObj sample_table) ''example.com'' 0 0 16 sample_sched empty_world)) = 1"
  by code_simp

section \<open>Properties of \<^verbatim>\<open>main\<close>\<close>

lemma print_all_stdout:
  "stdout (foldl (\<lambda>w' r. print (f r) w') w rs) = stdout w @ map f rs"
  by (induction rs arbitrary: w) (simp_all add: print_def)

lemma print_open_ports_stdout:
  "stdout (print_open_ports rs w)
     = stdout w @ OpenPortsHeader # map (\<lambda>r. PortLine (port r) (service r)) rs"
  by (simp add: print_open_ports_def print_all_stdout) (simp add: print_def)

lemma write_report_stdout:
  assumes "write_report ev a rs w = (None, w3)"
  shows "stdout w3 = stdout w @ (case args_output a of
                                   None \<Rightarrow> []
                                 | Some path \<Rightarrow> if path \<noteq> [] then [ResultsWritten path] else [])"
  using assms
  by (auto simp: write_report_def print_def Let_def split: option.splits if_splits)

lemma main_after_parse:
  assumes "parse_ports (args_ports a) = Inr (start_port, end_port)"
    and "run = scan ev (fst (PortScanner_init loaded w)) (args_host a) start_port end_port
                 (args_threads a) sched
                 (print (StartingScan (args_host a)) (snd (PortScanner_init loaded w)))"
  shows "main ev loaded a sched w =
           (case returned run of
              Inl e \<Rightarrow> (Some e, world_after run)
            | Inr rs \<Rightarrow>
                (if rs = [] then (None, print NoOpenPorts (world_after run))
                 else
                   (case write_report ev a rs (world_after run) of
                      (Some e, w3) \<Rightarrow> (Some e, w3)
                    | (None, w3) \<Rightarrow> (None, print_open_ports rs w3))))"
  using assms by (simp add: main_def case_prod_beta Let_def split: sum.splits)

lemma sample_main_ends:
  "fst (main sample_env (Inr sample_document) report_args sample_sched empty_world) = None"
  by code_simp

lemma sample_main_parse: "parse_ports (args_ports report_args) = Inr (80, 80)"
  by code_simp

text \<open>
  C9, amended. When \<^verbatim>\<open>main\<close> ends without an exception (the port range parsed, the pool
  was created and the report file, if one was asked for, could be written), the console
  output consists of what was printed up to the end of the scan, then the line
  \<^verbatim>\<open>Results written to ...\<close> if a report file was written, and then: the line
  \<^verbatim>\<open>No open ports found\<close> when \<^verbatim>\<open>scan\<close> returned the empty list; otherwise the header line
  \<^verbatim>\<open>Open ports:\<close> followed by one line \<^verbatim>\<open>Port <n>: <service>\<close> per returned result, in the
  order of the list. This holds whether or not a file output target was given.
\<close>

theorem main_console_output:
  assumes "fst (main ev loaded a sched w) = None"
  shows "\<exists>start_port end_port rs.
           parse_ports (args_ports a) = Inr (start_port, end_port)
         \<and> returned (scan ev (fst (PortScanner_init loaded w)) (args_host a) start_port end_port
               (args_threads a) sched
               (print (StartingScan (args_host a)) (snd (PortScanner_init loaded w)))) = Inr rs
         \<and> stdout (snd (main ev loaded a sched w))
             = stdout (world_after (scan ev (fst (PortScanner_init loaded w)) (args_host a)
                 start_port end_port (args_threads a) sched
                 (print (StartingScan (args_host a)) (snd (PortScanner_init loaded w)))))
               @ (case args_output a of
                    None \<Rightarrow> []
                  | Some path \<Rightarrow> if path \<noteq> [] \<and> rs \<noteq> [] then [ResultsWritten path] else [])
               @ console_summary rs"
proof -
  obtain start_port end_port where parse: "parse_ports (args_ports a) = Inr (start_port, end_port)"
    using assms by (cases "parse_ports (args_ports a)") (auto simp: main_def)
  define run where "run = scan ev (fst (PortScanner_init loaded w)) (args_host a) start_port end_port
                 (args_threads a) sched
                 (print (StartingScan (args_host a)) (snd (PortScanner_init loaded w)))"
  note m = main_after_parse [OF parse run_def, of]
  obtain rs where rs: "returned run = Inr rs"
    using assms unfolding m by (cases "returned run") auto
  have "stdout (snd (main ev loaded a sched w))
          = stdout (world_after run)
            @ (case args_output a of
                 None \<Rightarrow> []
               | Some path \<Rightarrow> if path \<noteq> [] \<and> rs \<noteq> [] then [ResultsWritten path] else [])
            @ console_summary rs"
  proof (cases "rs = []")
    case True
    then show ?thesis
      unfolding m using rs by (simp add: console_summary_def print_def split: option.splits)
  next
    case False
    obtain w3 where w3: "write_report ev a rs (world_after run) = (None, w3)"
      using assms False rs unfolding m
      by (cases "write_report ev a rs (world_after run)") (auto split: option.splits)
    have "snd (main ev loaded a sched w) = print_open_ports rs w3"
      unfolding m using rs False w3 by simp
    then show ?thesis
      using False write_report_stdout [OF w3]
      by (simp add: print_open_ports_stdout console_summary_def split: option.splits)
  qed
  then show ?thesis
    using parse rs unfolding run_def by blast
qed

theorem main_console_output_witness:
  "fst (main sample_env (Inr sample_document) report_args sample_sched empty_world) = None
   \<and> (\<exists>rs. stdout (snd (main sample_env (Inr sample_document) report_args sample_sched empty_world))
        = stdout (world_after (scan sample_env (fst (PortScanner_init (Inr sample_document) empty_world))
                   ''example.com'' 80 80 16 sample_sched
                   (print (StartingScan ''example.com'')
                      (snd (PortScanner_init (Inr sample_document) empty_world)))))
          @ (if rs \<noteq> [] then [ResultsWritten ''scan.html''] else []) @ console_summary rs)"
proof -
  obtain start_port end_port rs where
    p: "parse_ports (args_ports report_args) = Inr (start_port, end_port)" and
    out: "stdout (snd (main sample_env (Inr sample_document) report_args sample_sched empty_world))
             = stdout (world_after (scan sample_env (fst (PortScanner_init (Inr sample_document) empty_world))
                 (args_host report_args) start_port end_port (args_threads report_args) sample_sched
                 (print (StartingScan (args_host report_args))
                    (snd (PortScanner_init (Inr sample_document) empty_world)))))
               @ (case args_output report_args of
                    None \<Rightarrow> []
                  | Some path \<Rightarrow> if path \<noteq> [] \<and> rs \<noteq> [] then [ResultsWritten path] else [])
               @ console_summary rs"
    using main_console_output [OF sample_main_ends] by blast
  from p sample_main_parse have "start_port = 80" "end_port = 80" by simp_all
  with out have "stdout (snd (main sample_env (Inr sample_document) report_args sample_sched empty_world))
        = stdout (world_after (scan sample_env (fst (PortScanner_init (Inr sample_document) empty_world))
                   ''example.com'' 80 80 16 sample_sched
                   (print (StartingScan ''example.com'')
                      (snd (PortScanner_init (Inr sample_document) empty_world)))))
          @ (if rs \<noteq> [] then [ResultsWritten ''scan.html''] else []) @ console_summary rs"
    by (simp add: report_args_def)
  then show ?thesis
    using sample_main_ends by blast
qed

text \<open>
  C9 as stated fails: a run that finds one open port (port 80) prints the header
  \<^verbatim>\<open>Open ports:\<close> and the port line, and no line of its console output formats the number
  of open ports found, 1.
\<close>

theorem main_no_count_line_counterexample:
  "stdout (snd (main sample_env (Inr sample_document) console_args sample_sched empty_world))
     = [Loaded 4, StartingScan ''example.com'', FoundOpen 80 (JStr ''HTTP''),
        OpenPortsHeader, PortLine 80 (JStr ''HTTP'')]
   \<and> concat (map formatted_ints
        (stdout (snd (main sample_env (Inr sample_document) console_args sample_sched empty_world))))
     = [4, 80, 80]"
  by code_simp

end
